theory Spec2Isabelle
  imports Complex_Main
begin

section \<open>The sparse MNIST experiment: train, test, noise sweep, iterate\<close>

text \<open>
  A shallow embedding of \<^verbatim>\<open>MNISTSparseExperiment\<close>
  (\<^verbatim>\<open>htmresearch/frameworks/pytorch/mnist_sparse_experiment.py\<close>): the methods
  \<^verbatim>\<open>train\<close>, \<^verbatim>\<open>test\<close>, \<^verbatim>\<open>runNoiseTests\<close> and \<^verbatim>\<open>iterate\<close>.

  Conventions of the embedding.
  \<^item> Python integers are \<^typ>\<open>int\<close>; Python floats are idealised as \<^typ>\<open>real\<close>
    (rounding is not modelled), so no statement below is about the rounded value of a float:
    floats are only copied, stored under keys and compared between two runs of the same
    computation.
  \<^item> The network and its optimizer (\<^verbatim>\<open>self.model\<close>, \<^verbatim>\<open>self.optimizer\<close>) live outside
    this file. They share the parameter tensors, so they are one state of type \<open>'m\<close>, and
    every call the experiment makes on them is a field of the record \<open>learner\<close>.
    These calls are taken to return; an exception raised inside the library is not modelled.
  \<^item> Every method returns the list of calls it made on the network, the optimizer and the
    plotting library (type \<open>event\<close>), in order, next to its outcome. An outcome is
    \<open>Inl\<close> of the exception raised or \<open>Inr\<close> of the value returned. That this list is the
    list of the operations applied to the state is shown by \<open>train_recording\<close>,
    \<open>test_recording\<close> and \<open>runNoiseTests_recording\<close>: operations that write their own
    name into the state leave exactly this list there.
\<close>

subsection \<open>Data\<close>

datatype error = ZeroDivisionError | KeyError

datatype event =
    ModelTrain          \<comment> \<open>\<^verbatim>\<open>self.model.train()\<close>\<close>
  | ModelEval           \<comment> \<open>\<^verbatim>\<open>self.model.eval()\<close>\<close>
  | ZeroGrad            \<comment> \<open>\<^verbatim>\<open>self.optimizer.zero_grad()\<close>\<close>
  | Forward             \<comment> \<open>\<^verbatim>\<open>self.model(data)\<close>\<close>
  | Backward            \<comment> \<open>\<^verbatim>\<open>loss.backward()\<close>\<close>
  | OptimizerStep       \<comment> \<open>\<^verbatim>\<open>self.optimizer.step()\<close>\<close>
  | RezeroWeights       \<comment> \<open>\<^verbatim>\<open>self.model.rezeroWeights()\<close>\<close>
  | SaveFig int int     \<comment> \<open>\<^verbatim>\<open>plt.savefig(... str(epoch) + "_" + str(learningIterations))\<close>\<close>
  | PostEpoch           \<comment> \<open>\<^verbatim>\<open>self.model.postEpoch()\<close>\<close>

text \<open>A batch is the pair \<^verbatim>\<open>(data, target)\<close>: a data tensor and one label per sample.\<close>

type_synonym 'x batch = "'x \<times> nat list"

text \<open>
  The operations of the network and the optimizer. \<open>net_forward\<close> returns one row of
  log-probabilities per sample and the state it leaves (in training mode the network counts
  its learning iterations). \<open>nll\<close> is the negative log-likelihood of one sample as
  \<^verbatim>\<open>F.nll_loss\<close> computes it.
\<close>

record ('m, 'x) learner =
  net_train :: "'m \<Rightarrow> 'm"
  net_eval :: "'m \<Rightarrow> 'm"
  net_forward :: "'m \<Rightarrow> 'x \<Rightarrow> real list list \<times> 'm"
  opt_zero_grad :: "'m \<Rightarrow> 'm"
  loss_backward :: "'m \<Rightarrow> real list list \<Rightarrow> nat list \<Rightarrow> 'm"
  opt_step :: "'m \<Rightarrow> 'm"
  net_rezeroWeights :: "'m \<Rightarrow> 'm"
  net_postEpoch :: "'m \<Rightarrow> 'm"
  net_learningIterations :: "'m \<Rightarrow> int"
  nll :: "real list \<Rightarrow> nat \<Rightarrow> real"

text \<open>
  A data loader: the batches it yields when iterated (in the order of this iteration) and
  \<^verbatim>\<open>len(loader.dataset)\<close>.
\<close>

record 'x loader =
  batches :: "'x batch list"
  dataset_len :: nat

text \<open>The keys of \<^verbatim>\<open>params\<close> that the four methods read.\<close>

record params =
  iterations :: int
  log_interval :: int

text \<open>The part of \<^verbatim>\<open>self\<close> that \<^verbatim>\<open>iterate\<close> reads and writes.\<close>

record 'm run_state =
  startTime :: real
  model :: 'm

text \<open>The dictionary returned by \<^verbatim>\<open>test\<close>.\<close>

record test_result =
  num_correct :: int
  test_loss :: real
  testerror :: real

text \<open>
  The dictionaries returned by \<^verbatim>\<open>runNoiseTests\<close> and \<^verbatim>\<open>iterate\<close> have noise levels
  and strings as keys, and test results and numbers as values.
\<close>

datatype key = KNoise real | KStr string

datatype val = VResult test_result | VInt int | VFloat real

type_synonym ret = "key \<rightharpoonup> val"

subsection \<open>The training loop\<close>

text \<open>
  The body of \<^verbatim>\<open>for batch_idx, (data, target) in enumerate(self.train_loader)\<close>, from
  batch index \<open>batch_idx\<close> on. \<^verbatim>\<open>batch_idx % params["log_interval"]\<close> raises
  \<^verbatim>\<open>ZeroDivisionError\<close> when the interval is 0; otherwise Python's \<^verbatim>\<open>%\<close> on integers is
  \<open>mod\<close> on \<^typ>\<open>int\<close> (the sign of the divisor). The histogram drawn before
  \<^verbatim>\<open>plt.savefig\<close> reads \<^verbatim>\<open>self.model.dutyCycle\<close> and changes nothing.
\<close>

fun train_loop ::
  "('m, 'x) learner \<Rightarrow> int \<Rightarrow> int \<Rightarrow> nat \<Rightarrow> 'x batch list \<Rightarrow> 'm \<Rightarrow> event list \<times> (error + 'm)"
where
  "train_loop L li epoch batch_idx [] m = ([], Inr m)"
| "train_loop L li epoch batch_idx ((data, target) # bs) m =
    (let m1 = opt_zero_grad L m;
         (output, m2) = net_forward L m1 data;
         m3 = loss_backward L m2 output target;
         m4 = opt_step L m3;
         m5 = net_rezeroWeights L m4;
         evs = [ZeroGrad, Forward, Backward, OptimizerStep, RezeroWeights]
     in if li = 0 then (evs, Inl ZeroDivisionError)
        else
          let evs' = (if int batch_idx mod li = 0
                      then evs @ [SaveFig epoch (net_learningIterations L m5)] else evs);
              (rest, out) = train_loop L li epoch (Suc batch_idx) bs m5
          in (evs' @ rest, out))"

text \<open>\<^verbatim>\<open>train(self, params, epoch)\<close>; \<open>bs\<close> is what the training loader yields this epoch.\<close>

definition train ::
  "('m, 'x) learner \<Rightarrow> params \<Rightarrow> int \<Rightarrow> 'x batch list \<Rightarrow> 'm \<Rightarrow> event list \<times> (error + 'm)"
where
  "train L p epoch bs m =
    (let m0 = net_train L m;
         (evs, out) = train_loop L (log_interval p) epoch 0 bs m0
     in case out of
          Inl e \<Rightarrow> (ModelTrain # evs, Inl e)
        | Inr m1 \<Rightarrow> (ModelTrain # evs @ [PostEpoch], Inr (net_postEpoch L m1)))"

subsection \<open>The evaluation routine\<close>

text \<open>
  \<^verbatim>\<open>output.max(1, keepdim=True)[1]\<close>: for each row, the index of its maximum; here the first
  one if several entries are maximal.
\<close>

primrec argmax_from :: "real \<Rightarrow> nat \<Rightarrow> nat \<Rightarrow> real list \<Rightarrow> nat" where
  "argmax_from best besti i [] = besti"
| "argmax_from best besti i (x # xs) =
    (if best < x then argmax_from x i (Suc i) xs else argmax_from best besti (Suc i) xs)"

definition argmax :: "real list \<Rightarrow> nat" where
  "argmax row = (case row of [] \<Rightarrow> 0 | x # xs \<Rightarrow> argmax_from x 0 1 xs)"

text \<open>
  \<^verbatim>\<open>F.nll_loss(output, target, reduction='sum')\<close>: the losses of the samples, added. The
  network returns one output row per sample of the batch, so \<open>zip\<close> pairs every row with its
  label.
\<close>

definition nll_loss_sum :: "('m, 'x) learner \<Rightarrow> real list list \<Rightarrow> nat list \<Rightarrow> real" where
  "nll_loss_sum L output target = (\<Sum>(row, t) \<leftarrow> zip output target. nll L row t)"

text \<open>\<^verbatim>\<open>pred.eq(target.view_as(pred)).sum().item()\<close>: how many predictions equal their label.\<close>

definition batch_correct :: "real list list \<Rightarrow> nat list \<Rightarrow> int" where
  "batch_correct output target =
     int (length (filter (\<lambda>(row, t). argmax row = t) (zip output target)))"

text \<open>The loop \<^verbatim>\<open>for data, target in test_loader\<close> with its two accumulators.\<close>

fun test_loop ::
  "('m, 'x) learner \<Rightarrow> 'x batch list \<Rightarrow> real \<Rightarrow> int \<Rightarrow> 'm \<Rightarrow> event list \<times> real \<times> int \<times> 'm"
where
  "test_loop L [] loss_acc correct m = ([], loss_acc, correct, m)"
| "test_loop L ((data, target) # bs) loss_acc correct m =
    (let (output, m') = net_forward L m data;
         loss_acc' = loss_acc + nll_loss_sum L output target;
         correct' = correct + batch_correct output target;
         (evs, r) = test_loop L bs loss_acc' correct' m'
     in (Forward # evs, r))"

text \<open>
  \<^verbatim>\<open>test(self, params, test_loader)\<close>. Both divisions are by \<^verbatim>\<open>len(test_loader.dataset)\<close>
  and raise \<^verbatim>\<open>ZeroDivisionError\<close> when it is 0.
\<close>

definition test ::
  "('m, 'x) learner \<Rightarrow> 'x loader \<Rightarrow> 'm \<Rightarrow> event list \<times> (error + test_result \<times> 'm)"
where
  "test L test_loader m =
    (let m0 = net_eval L m;
         (evs, loss_sum, correct, m1) = test_loop L (batches test_loader) 0 0 m0
     in if dataset_len test_loader = 0 then (ModelEval # evs, Inl ZeroDivisionError)
        else (ModelEval # evs,
              Inr (\<lparr>num_correct = correct,
                     test_loss = loss_sum / real (dataset_len test_loader),
                     testerror = 100 * real_of_int correct / real (dataset_len test_loader)\<rparr>,
                   m1)))"

subsection \<open>The noise sweep\<close>

definition noise_levels :: "real list" where
  "noise_levels = [0.0, 0.05, 0.1, 0.15, 0.2, 0.25, 0.3, 0.35, 0.4, 0.45, 0.5]"

text \<open>
  The loop \<^verbatim>\<open>for noise in [...]\<close>. \<open>mk noise\<close> is the loader built for that noise level
  (the test set under \<^verbatim>\<open>RandomNoise(noise)\<close>, as it is drawn in this run).
\<close>

fun noise_loop ::
  "('m, 'x) learner \<Rightarrow> (real \<Rightarrow> 'x loader) \<Rightarrow> real list \<Rightarrow> ret \<Rightarrow> int \<Rightarrow> 'm
     \<Rightarrow> event list \<times> (error + ret \<times> int \<times> 'm)"
where
  "noise_loop L mk [] ret total_correct m = ([], Inr (ret, total_correct, m))"
| "noise_loop L mk (noise # ns) ret total_correct m =
    (case test L (mk noise) m of
       (evs, Inl e) \<Rightarrow> (evs, Inl e)
     | (evs, Inr (testResult, m')) \<Rightarrow>
         let (rest, out) = noise_loop L mk ns (ret(KNoise noise \<mapsto> VResult testResult))
                             (total_correct + num_correct testResult) m'
         in (evs @ rest, out))"

text \<open>
  \<^verbatim>\<open>runNoiseTests(self, params)\<close>. \<^verbatim>\<open>ret[0.0]["testerror"]\<close> raises \<^verbatim>\<open>KeyError\<close> if the key
  is missing (it never is: \<open>sweep_first\<close> below).
\<close>

definition runNoiseTests ::
  "('m, 'x) learner \<Rightarrow> (real \<Rightarrow> 'x loader) \<Rightarrow> 'm \<Rightarrow> event list \<times> (error + ret \<times> 'm)"
where
  "runNoiseTests L mk m =
    (case noise_loop L mk noise_levels Map.empty 0 m of
       (evs, Inl e) \<Rightarrow> (evs, Inl e)
     | (evs, Inr (ret, total_correct, m')) \<Rightarrow>
         let ret1 = ret(KStr ''totalCorrect'' \<mapsto> VInt total_correct)
         in case ret1 (KNoise 0.0) of
              Some (VResult r) \<Rightarrow> (evs, Inr (ret1(KStr ''testerror'' \<mapsto> VFloat (testerror r)), m'))
            | _ \<Rightarrow> (evs, Inl KeyError))"

subsection \<open>One iteration of the experiment\<close>

text \<open>
  \<^verbatim>\<open>iterate(self, params, repetition, iteration)\<close>. \<open>bs\<close> is what the training loader yields
  in this epoch, \<open>mk\<close> gives the loaders of the sweep and \<open>now\<close> is the reading of
  \<^verbatim>\<open>time.time()\<close>. The \<^verbatim>\<open>print\<close> of the last iteration looks up two keys.
\<close>

definition iterate ::
  "('m, 'x) learner \<Rightarrow> params \<Rightarrow> 'x batch list \<Rightarrow> (real \<Rightarrow> 'x loader) \<Rightarrow> real \<Rightarrow> int
     \<Rightarrow> 'm run_state \<Rightarrow> event list \<times> (error + ret \<times> 'm run_state)"
where
  "iterate L p bs mk now iteration s =
    (case train L p iteration bs (model s) of
       (evs1, Inl e) \<Rightarrow> (evs1, Inl e)
     | (evs1, Inr m1) \<Rightarrow>
         if iteration = iterations p - 1 then
           (case runNoiseTests L mk m1 of
              (evs2, Inl e) \<Rightarrow> (evs1 @ evs2, Inl e)
            | (evs2, Inr (nret, m2)) \<Rightarrow>
                let ret = Map.empty ++ nret
                in if ret (KStr ''totalCorrect'') = None \<or> ret (KStr ''testerror'') = None
                   then (evs1 @ evs2, Inl KeyError)
                   else (evs1 @ evs2,
                         Inr (ret(KStr ''elapsedTime'' \<mapsto> VFloat (now - startTime s)),
                              s\<lparr>model := m2\<rparr>)))
         else (evs1, Inr (Map.empty(KStr ''elapsedTime'' \<mapsto> VFloat (now - startTime s)),
                          s\<lparr>model := m1\<rparr>)))"

subsection \<open>Reading the call sequence\<close>

text \<open>The number of diagnostic artifacts written: the calls of \<^verbatim>\<open>plt.savefig\<close>.\<close>

fun is_savefig :: "event \<Rightarrow> bool" where
  "is_savefig (SaveFig e n) = True"
| "is_savefig _ = False"

definition artifacts :: "event list \<Rightarrow> nat" where
  "artifacts evs = length (filter is_savefig evs)"

text \<open>
  Every call of \<^verbatim>\<open>optimizer.step\<close> is followed at once by a call of \<^verbatim>\<open>rezeroWeights\<close>, and
  \<^verbatim>\<open>rezeroWeights\<close> is called nowhere else.
\<close>

fun rezero_follows_step :: "event list \<Rightarrow> bool" where
  "rezero_follows_step [] = True"
| "rezero_follows_step (OptimizerStep # RezeroWeights # es) = rezero_follows_step es"
| "rezero_follows_step (OptimizerStep # es) = False"
| "rezero_follows_step (RezeroWeights # es) = False"
| "rezero_follows_step (e # es) = rezero_follows_step es"

subsection \<open>What the evaluation sees\<close>

text \<open>
  The samples scored by the loop of \<^verbatim>\<open>test\<close>: for every batch in order, each output row of
  the network with the label of its sample. The network state is passed from batch to batch as
  the loop does.
\<close>

fun scored_samples :: "('m, 'x) learner \<Rightarrow> 'x batch list \<Rightarrow> 'm \<Rightarrow> (real list \<times> nat) list" where
  "scored_samples L [] m = []"
| "scored_samples L ((data, target) # bs) m =
     (let (output, m') = net_forward L m data in zip output target @ scored_samples L bs m')"

text \<open>The network state after the forward passes over all batches.\<close>

fun forward_all :: "('m, 'x) learner \<Rightarrow> 'x batch list \<Rightarrow> 'm \<Rightarrow> 'm" where
  "forward_all L [] m = m"
| "forward_all L ((data, target) # bs) m = forward_all L bs (snd (net_forward L m data))"

text \<open>The number of samples whose top-1 prediction is their label, and the sum of their losses.\<close>

definition correct_count :: "(real list \<times> nat) list \<Rightarrow> int" where
  "correct_count S = int (length (filter (\<lambda>(row, t). argmax row = t) S))"

definition loss_total :: "('m, 'x) learner \<Rightarrow> (real list \<times> nat) list \<Rightarrow> real" where
  "loss_total L S = (\<Sum>(row, t) \<leftarrow> S. nll L row t)"

text \<open>
  The evaluations of the sweep: each noise level with the result \<open>test\<close> returns for it, in
  the order of the loop, the network state passed on from one evaluation to the next.
\<close>

fun sweep_results ::
  "('m, 'x) learner \<Rightarrow> (real \<Rightarrow> 'x loader) \<Rightarrow> real list \<Rightarrow> 'm \<Rightarrow> (real \<times> test_result) list"
where
  "sweep_results L mk [] m = []"
| "sweep_results L mk (noise # ns) m =
     (case snd (test L (mk noise) m) of
        Inl e \<Rightarrow> []
      | Inr (r, m') \<Rightarrow> (noise, r) # sweep_results L mk ns m')"

subsection \<open>The calls as the operations record them\<close>

text \<open>
  \<open>recording L\<close> runs the operations of \<open>L\<close> on the first component of the state, and every
  operation that changes the state appends its own name to the log in the second component.
  A method run on \<open>recording L\<close> therefore leaves in the log the operations it really applied,
  in the order it applied them.
\<close>

definition recording :: "('m, 'x) learner \<Rightarrow> ('m \<times> event list, 'x) learner" where
  "recording L =
     \<lparr>net_train = (\<lambda>(m, lg). (net_train L m, lg @ [ModelTrain])),
      net_eval = (\<lambda>(m, lg). (net_eval L m, lg @ [ModelEval])),
      net_forward = (\<lambda>(m, lg) data.
         (fst (net_forward L m data), (snd (net_forward L m data), lg @ [Forward]))),
      opt_zero_grad = (\<lambda>(m, lg). (opt_zero_grad L m, lg @ [ZeroGrad])),
      loss_backward = (\<lambda>(m, lg) output target.
         (loss_backward L m output target, lg @ [Backward])),
      opt_step = (\<lambda>(m, lg). (opt_step L m, lg @ [OptimizerStep])),
      net_rezeroWeights = (\<lambda>(m, lg). (net_rezeroWeights L m, lg @ [RezeroWeights])),
      net_postEpoch = (\<lambda>(m, lg). (net_postEpoch L m, lg @ [PostEpoch])),
      net_learningIterations = (\<lambda>(m, lg). net_learningIterations L m),
      nll = nll L\<rparr>"

text \<open>The calls on the network and the optimizer: all but those of \<^verbatim>\<open>plt.savefig\<close>.\<close>

definition calls :: "event list \<Rightarrow> event list" where
  "calls evs = filter (\<lambda>e. \<not> is_savefig e) evs"

subsection \<open>The state after an epoch\<close>

text \<open>
  What one batch does to the state when every operation is applied in the order of the loop
  body: \<^verbatim>\<open>zero_grad\<close>, the forward pass, \<^verbatim>\<open>backward\<close>, \<^verbatim>\<open>optimizer.step\<close>, then
  \<^verbatim>\<open>rezeroWeights\<close> on the state the step left. \<open>step_all\<close> does this for every batch in turn.
\<close>

definition batch_step :: "('m, 'x) learner \<Rightarrow> 'x batch \<Rightarrow> 'm \<Rightarrow> 'm" where
  "batch_step L b m =
     (let m1 = opt_zero_grad L m;
          (output, m2) = net_forward L m1 (fst b);
          m3 = loss_backward L m2 output (snd b);
          m4 = opt_step L m3
      in net_rezeroWeights L m4)"

definition step_all :: "('m, 'x) learner \<Rightarrow> 'x batch list \<Rightarrow> 'm \<Rightarrow> 'm" where
  "step_all L bs m = fold (batch_step L) bs m"

subsection \<open>The model as the spec describes it\<close>

text \<open>
  Modelled from the spec: the Trainable Model. The class \<^verbatim>\<open>SparseMNISTNet\<close> (module
  \<^verbatim>\<open>htmresearch.frameworks.pytorch.sparse_mnist_net\<close>) is imported by the experiment but is not
  among the sources. The spec describes the model as ``an opaque sparse classifier exposing:
  forward inference producing per-class log-probabilities; a post-optimizer-step hook that
  re-enforces zero weights; a post-epoch hook for internal bookkeeping'', and the evaluation as
  running ``the model in inference mode (no gradient tracking)''.

  Accordingly a model state is a mode flag, which \<^verbatim>\<open>train()\<close> sets and \<^verbatim>\<open>eval()\<close> clears, and a
  body: the weights and learned parameters with everything else the model and its optimizer
  keep (duty cycles, counters, gradients, momentum). In inference mode a forward pass produces
  the log-probabilities from the body (\<open>infer\<close>) and changes nothing. The forward pass in
  training mode and all other operations are left open: they act on the body as the operations
  of an arbitrary learner \<open>T\<close> do.
\<close>

record 'w model_state =
  in_training :: bool
  body :: 'w

definition spec_model ::
  "('w \<Rightarrow> 'x \<Rightarrow> real list list) \<Rightarrow> ('w, 'x) learner \<Rightarrow> ('w model_state, 'x) learner"
where
  \<comment> \<open>Modelled from the spec: the Trainable Model, whose class is not among the sources.\<close>
  "spec_model infer T =
     \<lparr>net_train = (\<lambda>m. m\<lparr>in_training := True\<rparr>),
      net_eval = (\<lambda>m. m\<lparr>in_training := False\<rparr>),
      net_forward = (\<lambda>m data.
         if in_training m
         then (fst (net_forward T (body m) data),
               m\<lparr>body := snd (net_forward T (body m) data)\<rparr>)
         else (infer (body m) data, m)),
      opt_zero_grad = (\<lambda>m. m\<lparr>body := opt_zero_grad T (body m)\<rparr>),
      loss_backward = (\<lambda>m output target.
         m\<lparr>body := loss_backward T (body m) output target\<rparr>),
      opt_step = (\<lambda>m. m\<lparr>body := opt_step T (body m)\<rparr>),
      net_rezeroWeights = (\<lambda>m. m\<lparr>body := net_rezeroWeights T (body m)\<rparr>),
      net_postEpoch = (\<lambda>m. m\<lparr>body := net_postEpoch T (body m)\<rparr>),
      net_learningIterations = (\<lambda>m. net_learningIterations T (body m)),
      nll = nll T\<rparr>"

subsection \<open>A small network to run the definitions on\<close>

text \<open>
  A network with one weight, a mode flag and an iteration counter. Its forward pass returns the
  data as the output rows and counts the samples in training mode only; the optimizer step adds
  1 to the weight.
\<close>

record toy_net =
  weight :: int
  training :: bool
  iters :: int

definition toy :: "(toy_net, real list list) learner" where
  "toy = \<lparr>net_train = (\<lambda>m. m\<lparr>training := True\<rparr>),
          net_eval = (\<lambda>m. m\<lparr>training := False\<rparr>),
          net_forward = (\<lambda>m data.
             (data, if training m then m\<lparr>iters := iters m + int (length data)\<rparr> else m)),
          opt_zero_grad = (\<lambda>m. m),
          loss_backward = (\<lambda>m output target. m),
          opt_step = (\<lambda>m. m\<lparr>weight := weight m + 1\<rparr>),
          net_rezeroWeights = (\<lambda>m. m),
          net_postEpoch = (\<lambda>m. m),
          net_learningIterations = iters,
          nll = (\<lambda>row t. if t < length row then - (row ! t) else 0)\<rparr>"

definition toy_fresh :: toy_net where
  "toy_fresh = \<lparr>weight = 0, training = False, iters = 0\<rparr>"

definition toy_trained :: toy_net where
  "toy_trained = \<lparr>weight = 3, training = True, iters = 6\<rparr>"

definition toy_evaluated :: toy_net where
  "toy_evaluated = \<lparr>weight = 3, training = False, iters = 6\<rparr>"

text \<open>A batch of two samples with label 0; the first is classified correctly.\<close>

definition toy_batch :: "real list list batch" where
  "toy_batch = ([[-1, -2], [-3, -1/2]], [0, 0])"

definition toy_mk :: "real \<Rightarrow> real list list loader" where
  "toy_mk noise = \<lparr>batches = [toy_batch], dataset_len = 2\<rparr>"

definition toy_params :: params where
  "toy_params = \<lparr>iterations = 1, log_interval = 5\<rparr>"

definition toy_params2 :: params where
  "toy_params2 = \<lparr>iterations = 2, log_interval = 5\<rparr>"

definition toy_params0 :: params where
  "toy_params0 = \<lparr>iterations = 1, log_interval = 0\<rparr>"

definition toy_state :: "toy_net run_state" where
  "toy_state = \<lparr>startTime = 3, model = toy_fresh\<rparr>"

definition toy_r :: test_result where
  "toy_r = \<lparr>num_correct = 1, test_loss = 2, testerror = 50\<rparr>"

definition toy_ret :: ret where
  "toy_ret =
    [KNoise 0.0 \<mapsto> VResult toy_r, KNoise 0.05 \<mapsto> VResult toy_r, KNoise 0.1 \<mapsto> VResult toy_r,
     KNoise 0.15 \<mapsto> VResult toy_r, KNoise 0.2 \<mapsto> VResult toy_r, KNoise 0.25 \<mapsto> VResult toy_r,
     KNoise 0.3 \<mapsto> VResult toy_r, KNoise 0.35 \<mapsto> VResult toy_r, KNoise 0.4 \<mapsto> VResult toy_r,
     KNoise 0.45 \<mapsto> VResult toy_r, KNoise 0.5 \<mapsto> VResult toy_r,
     KStr ''totalCorrect'' \<mapsto> VInt 11, KStr ''testerror'' \<mapsto> VFloat 50]"

definition toy_iter_ret :: ret where
  "toy_iter_ret = toy_ret(KStr ''elapsedTime'' \<mapsto> VFloat 7)"

text \<open>
  The same network as a model of the kind the spec describes: its inference returns the data
  as the output rows. \<open>toy_model\<close> is the model after a training epoch, in training mode.
\<close>

definition toy_infer :: "toy_net \<Rightarrow> real list list \<Rightarrow> real list list" where
  "toy_infer w data = data"

definition toy_model :: "toy_net model_state" where
  "toy_model = \<lparr>in_training = True, body = toy_trained\<rparr>"

section \<open>The training loop: log interval, artifacts, hooks\<close>

lemmas toy_defs =
  toy_def toy_fresh_def toy_trained_def toy_evaluated_def toy_batch_def toy_mk_def
  toy_params_def toy_params2_def toy_params0_def toy_state_def

lemma train_loop_returns:
  "li \<noteq> 0 \<Longrightarrow> \<exists>m'. snd (train_loop L li epoch i bs m) = Inr m'"
  by (induction bs arbitrary: i m) (auto simp: Let_def split_beta)

lemma train_loop_zero:
  "snd (train_loop L 0 epoch i (b # bs) m) = Inl ZeroDivisionError \<and>
   fst (train_loop L 0 epoch i (b # bs) m)
     = [ZeroGrad, Forward, Backward, OptimizerStep, RezeroWeights]"
  by (cases b) (simp add: Let_def split_beta)

lemma train_loop_no_artifact:
  "0 < i \<Longrightarrow> int i + int (length bs) \<le> li \<Longrightarrow>
     artifacts (fst (train_loop L li epoch i bs m)) = 0"
proof (induction bs arbitrary: i m)
  case Nil
  then show ?case by (simp add: artifacts_def)
next
  case (Cons b bs)
  obtain data target where b: "b = (data, target)" by (cases b)
  have li: "li \<noteq> 0" and md: "int i mod li \<noteq> 0" using Cons.prems by auto
  have ih: "\<And>m. artifacts (fst (train_loop L li epoch (Suc i) bs m)) = 0"
    using Cons.IH[of "Suc i"] Cons.prems by simp
  show ?case using li md ih
    by (simp add: b Let_def artifacts_def split_beta)
qed

lemma rezero_follows_step_append:
  "rezero_follows_step xs \<Longrightarrow> rezero_follows_step ys \<Longrightarrow> rezero_follows_step (xs @ ys)"
  by (induction xs rule: rezero_follows_step.induct) auto

lemma train_loop_rezero:
  "rezero_follows_step (fst (train_loop L li epoch i bs m))"
  by (induction bs arbitrary: i m) (auto simp: Let_def split_beta)

lemma train_loop_counts:
  "snd (train_loop L li epoch i bs m) = Inr m' \<Longrightarrow>
     count_list (fst (train_loop L li epoch i bs m)) OptimizerStep = length bs \<and>
     count_list (fst (train_loop L li epoch i bs m)) RezeroWeights = length bs \<and>
     count_list (fst (train_loop L li epoch i bs m)) PostEpoch = 0"
  by (induction bs arbitrary: i m) (auto simp: Let_def split_beta split: if_splits)

lemma toy_train:
  "train toy toy_params epoch [toy_batch, toy_batch, toy_batch] toy_fresh =
     ([ModelTrain,
       ZeroGrad, Forward, Backward, OptimizerStep, RezeroWeights, SaveFig epoch 2,
       ZeroGrad, Forward, Backward, OptimizerStep, RezeroWeights,
       ZeroGrad, Forward, Backward, OptimizerStep, RezeroWeights,
       PostEpoch], Inr toy_trained)"
  by (simp add: train_def toy_defs Let_def)

lemma toy_train2:
  "train toy toy_params2 epoch [toy_batch, toy_batch, toy_batch] toy_fresh =
     train toy toy_params epoch [toy_batch, toy_batch, toy_batch] toy_fresh"
  by (simp add: train_def toy_params_def toy_params2_def)

text \<open>
  Claim C10. The loop computes \<^verbatim>\<open>batch_idx % log_interval\<close> for every batch. With
  \<open>log_interval \<ge> 1\<close> every such test is defined and the epoch returns. With
  \<open>log_interval = 0\<close> and at least one batch, the test of the first batch raises
  \<^verbatim>\<open>ZeroDivisionError\<close>: the epoch stops there, after the first optimizer step and
  \<^verbatim>\<open>rezeroWeights\<close>.
\<close>

theorem train_log_interval_nonzero:
  "(1 \<le> log_interval p \<longrightarrow> (\<exists>m'. snd (train L p epoch bs m) = Inr m')) \<and>
   (log_interval p = 0 \<and> bs \<noteq> [] \<longrightarrow>
      train L p epoch bs m =
        ([ModelTrain, ZeroGrad, Forward, Backward, OptimizerStep, RezeroWeights],
         Inl ZeroDivisionError))"
proof (intro conjI impI)
  assume "1 \<le> log_interval p"
  then have "log_interval p \<noteq> 0" by simp
  from train_loop_returns[OF this, of L epoch 0 bs "net_train L m"]
  show "\<exists>m'. snd (train L p epoch bs m) = Inr m'"
    by (auto simp: train_def Let_def split_beta)
next
  assume "log_interval p = 0 \<and> bs \<noteq> []"
  then obtain b bs' where "bs = b # bs'" and "log_interval p = 0" by (cases bs) auto
  then show "train L p epoch bs m =
        ([ModelTrain, ZeroGrad, Forward, Backward, OptimizerStep, RezeroWeights],
         Inl ZeroDivisionError)"
    using train_loop_zero[of L epoch 0 b bs' "net_train L m"]
    by (simp add: train_def Let_def split_beta)
qed

theorem train_log_interval_nonzero_witness:
  "1 \<le> log_interval toy_params \<and>
   (\<exists>m'. snd (train toy toy_params 0 [toy_batch, toy_batch, toy_batch] toy_fresh) = Inr m') \<and>
   (log_interval toy_params0 = 0 \<and> [toy_batch] \<noteq> []) \<and>
   train toy toy_params0 0 [toy_batch] toy_fresh =
     ([ModelTrain, ZeroGrad, Forward, Backward, OptimizerStep, RezeroWeights],
      Inl ZeroDivisionError)"
proof -
  have h1: "1 \<le> log_interval toy_params" by (simp add: toy_params_def)
  have h2: "log_interval toy_params0 = 0 \<and> [toy_batch] \<noteq> []" by (simp add: toy_params0_def)
  from train_log_interval_nonzero[where p = toy_params and L = toy and epoch = 0
         and bs = "[toy_batch, toy_batch, toy_batch]" and m = toy_fresh]
  have c1: "\<exists>m'. snd (train toy toy_params 0 [toy_batch, toy_batch, toy_batch] toy_fresh) = Inr m'"
    using h1 by blast
  from train_log_interval_nonzero[where p = toy_params0 and L = toy and epoch = 0
         and bs = "[toy_batch]" and m = toy_fresh]
  have c2: "train toy toy_params0 0 [toy_batch] toy_fresh =
     ([ModelTrain, ZeroGrad, Forward, Backward, OptimizerStep, RezeroWeights],
      Inl ZeroDivisionError)"
    using h2 by blast
  from h1 c1 h2 c2 show ?thesis by blast
qed

text \<open>
  Claim C1, as stated, fails: batch index 0 passes the test \<^verbatim>\<open>batch_idx % log_interval == 0\<close>
  for every interval, so an epoch with at least one batch writes an artifact at its first
  batch. Here the interval is 5 and the loader yields 3 batches.
\<close>

theorem train_artifacts_counterexample:
  "int (length [toy_batch, toy_batch, toy_batch]) < log_interval toy_params \<and>
   artifacts (fst (train toy toy_params 0 [toy_batch, toy_batch, toy_batch] toy_fresh)) = 1 \<and>
   artifacts (fst (train toy toy_params 0 [toy_batch, toy_batch, toy_batch] toy_fresh)) \<noteq> 0"
  by (simp add: toy_train artifacts_def) (simp add: toy_params_def)

text \<open>
  Claim C1, amended. If \<open>log_interval\<close> is strictly greater than the number of batches of
  the epoch, the epoch returns and writes exactly one artifact when the loader yields at least
  one batch, namely at the first batch (right after its \<^verbatim>\<open>rezeroWeights\<close>), and none when the
  loader yields no batch.
\<close>

theorem train_artifacts_large_interval:
  assumes "int (length bs) < log_interval p"
  shows "artifacts (fst (train L p epoch bs m)) = (if bs = [] then 0 else 1) \<and>
         (bs \<noteq> [] \<longrightarrow> is_savefig (fst (train L p epoch bs m) ! 6)) \<and>
         (\<exists>m'. snd (train L p epoch bs m) = Inr m')"
proof -
  let ?r = "train_loop L (log_interval p) epoch 0 bs (net_train L m)"
  from assms have li: "log_interval p \<noteq> 0" by auto
  from train_loop_returns[OF li, of L epoch 0 bs "net_train L m"]
  obtain m1 where out: "snd ?r = Inr m1" by auto
  have ev: "fst (train L p epoch bs m) = ModelTrain # fst ?r @ [PostEpoch]"
    using out by (simp add: train_def Let_def split_beta)
  have a: "artifacts (fst ?r) = (if bs = [] then 0 else 1)"
  proof (cases bs)
    case Nil
    then show ?thesis by (simp add: artifacts_def)
  next
    case (Cons b bs')
    obtain data target where b: "b = (data, target)" by (cases b)
    have "\<And>m. artifacts (fst (train_loop L (log_interval p) epoch (Suc 0) bs' m)) = 0"
      using train_loop_no_artifact[of "Suc 0" bs' "log_interval p"] assms Cons by simp
    then show ?thesis using li Cons b
      by (auto simp: Let_def artifacts_def split_beta)
  qed
  have f: "bs \<noteq> [] \<longrightarrow> is_savefig (fst (train L p epoch bs m) ! 6)"
  proof
    assume "bs \<noteq> []"
    then obtain b bs' where bs: "bs = b # bs'" by (cases bs) auto
    obtain data target where b: "b = (data, target)" by (cases b)
    show "is_savefig (fst (train L p epoch bs m) ! 6)"
      unfolding ev using li by (simp add: bs b Let_def split_beta)
  qed
  show ?thesis using a f out ev by (simp add: train_def artifacts_def Let_def split_beta)
qed

theorem train_artifacts_large_interval_witness:
  "int (length [toy_batch, toy_batch, toy_batch]) < log_interval toy_params \<and>
   artifacts (fst (train toy toy_params 0 [toy_batch, toy_batch, toy_batch] toy_fresh)) = 1 \<and>
   is_savefig (fst (train toy toy_params 0 [toy_batch, toy_batch, toy_batch] toy_fresh) ! 6) \<and>
   (\<exists>m'. snd (train toy toy_params 0 [toy_batch, toy_batch, toy_batch] toy_fresh) = Inr m')"
proof -
  have h: "int (length [toy_batch, toy_batch, toy_batch]) < log_interval toy_params"
    by (simp add: toy_params_def)
  from h train_artifacts_large_interval[OF h, where L = toy and epoch = 0 and m = toy_fresh]
  show ?thesis by simp
qed

text \<open>
  The operations applied by the training loop, as they record themselves, are the calls the
  loop returns (without those of \<^verbatim>\<open>plt.savefig\<close>); and the state a returning epoch leaves is
  the state \<open>step_all\<close> gives, followed by \<^verbatim>\<open>postEpoch\<close>.
\<close>

lemma recording_ops:
  "net_train (recording L) (m, lg) = (net_train L m, lg @ [ModelTrain])"
  "net_eval (recording L) (m, lg) = (net_eval L m, lg @ [ModelEval])"
  "net_forward (recording L) (m, lg) data =
     (fst (net_forward L m data), (snd (net_forward L m data), lg @ [Forward]))"
  "opt_zero_grad (recording L) (m, lg) = (opt_zero_grad L m, lg @ [ZeroGrad])"
  "loss_backward (recording L) (m, lg) output target =
     (loss_backward L m output target, lg @ [Backward])"
  "opt_step (recording L) (m, lg) = (opt_step L m, lg @ [OptimizerStep])"
  "net_rezeroWeights (recording L) (m, lg) = (net_rezeroWeights L m, lg @ [RezeroWeights])"
  "net_postEpoch (recording L) (m, lg) = (net_postEpoch L m, lg @ [PostEpoch])"
  "net_learningIterations (recording L) (m, lg) = net_learningIterations L m"
  "nll (recording L) = nll L"
  by (simp_all add: recording_def)

lemma train_loop_recording:
  "train_loop (recording L) li epoch i bs (m, lg) =
     (fst (train_loop L li epoch i bs m),
      case snd (train_loop L li epoch i bs m) of
        Inl e \<Rightarrow> Inl e
      | Inr m' \<Rightarrow> Inr (m', lg @ calls (fst (train_loop L li epoch i bs m))))"
proof (induction bs arbitrary: i m lg)
  case Nil
  then show ?case by (simp add: calls_def)
next
  case (Cons b bs)
  obtain data target where b: "b = (data, target)" by (cases b)
  show ?case
    by (simp add: b Let_def split_beta Cons.IH recording_ops calls_def split: sum.splits)
qed

lemma train_recording:
  "train (recording L) p epoch bs (m, lg) =
     (fst (train L p epoch bs m),
      case snd (train L p epoch bs m) of
        Inl e \<Rightarrow> Inl e
      | Inr m' \<Rightarrow> Inr (m', lg @ calls (fst (train L p epoch bs m))))"
  by (simp add: train_def Let_def split_beta recording_ops train_loop_recording calls_def
        split: sum.splits)

lemma train_loop_state:
  "snd (train_loop L li epoch i bs m) = Inr m' \<Longrightarrow> m' = step_all L bs m"
proof (induction bs arbitrary: i m)
  case Nil
  then show ?case by (simp add: step_all_def)
next
  case (Cons b bs)
  obtain data target where b: "b = (data, target)" by (cases b)
  from Cons.prems have li: "li \<noteq> 0" by (auto simp: b Let_def split_beta split: if_splits)
  from Cons.prems li have
    "snd (train_loop L li epoch (Suc i) bs (batch_step L b m)) = Inr m'"
    by (simp add: b Let_def split_beta batch_step_def)
  from Cons.IH[OF this] show ?case by (simp add: step_all_def)
qed

lemma train_state:
  "snd (train L p epoch bs m) = Inr m' \<Longrightarrow>
     m' = net_postEpoch L (step_all L bs (net_train L m))"
  by (auto simp: train_def Let_def split_beta split: sum.splits dest: train_loop_state)

lemma calls_rezero: "rezero_follows_step evs \<Longrightarrow> rezero_follows_step (calls evs)"
  by (induction evs rule: rezero_follows_step.induct) (auto simp: calls_def)

lemma calls_count: "\<not> is_savefig e \<Longrightarrow> count_list (calls evs) e = count_list evs e"
  by (induction evs) (auto simp: calls_def)

lemma toy_step_all:
  "net_postEpoch toy (step_all toy [toy_batch, toy_batch, toy_batch] (net_train toy toy_fresh))
     = toy_trained"
  by (simp add: step_all_def batch_step_def toy_defs Let_def)

text \<open>
  Claim C6. In every epoch, complete or stopped by an exception, each call of
  \<^verbatim>\<open>optimizer.step\<close> is followed at once by one call of \<^verbatim>\<open>rezeroWeights\<close>, which is called
  nowhere else. In every epoch that returns:
  \<^item> the state returned is the state obtained by applying, for every batch in turn,
    \<^verbatim>\<open>zero_grad\<close>, the forward pass, \<^verbatim>\<open>backward\<close>, \<^verbatim>\<open>optimizer.step\<close> and then \<^verbatim>\<open>rezeroWeights\<close>,
    and \<^verbatim>\<open>postEpoch\<close> once after the last batch;
  \<^item> the log the operations themselves write (run on \<open>recording L\<close> from an empty log) has
    every \<^verbatim>\<open>optimizer.step\<close> followed at once by \<^verbatim>\<open>rezeroWeights\<close>, one of each per batch,
    and \<^verbatim>\<open>postEpoch\<close> exactly once, as its last entry.
\<close>

theorem train_hooks_order:
  "rezero_follows_step (fst (train L p epoch bs m)) \<and>
   (snd (train L p epoch bs m) = Inr m' \<longrightarrow>
      m' = net_postEpoch L (step_all L bs (net_train L m)) \<and>
      (\<exists>lg. snd (train (recording L) p epoch bs (m, [])) = Inr (m', lg) \<and>
         rezero_follows_step lg \<and>
         count_list lg OptimizerStep = length bs \<and>
         count_list lg RezeroWeights = length bs \<and>
         count_list lg PostEpoch = 1 \<and>
         last lg = PostEpoch))"
proof -
  let ?r = "train_loop L (log_interval p) epoch 0 bs (net_train L m)"
  let ?evs = "fst (train L p epoch bs m)"
  have r: "rezero_follows_step (fst ?r)" by (rule train_loop_rezero)
  have all: "rezero_follows_step ?evs"
  proof (cases "snd ?r")
    case (Inl e)
    then show ?thesis using r by (simp add: train_def Let_def split_beta)
  next
    case (Inr m1)
    have "rezero_follows_step (fst ?r @ [PostEpoch])"
      using r by (rule rezero_follows_step_append) simp
    then show ?thesis using Inr by (simp add: train_def Let_def split_beta)
  qed
  have ret: "snd (train L p epoch bs m) = Inr m' \<longrightarrow>
      m' = net_postEpoch L (step_all L bs (net_train L m)) \<and>
      (\<exists>lg. snd (train (recording L) p epoch bs (m, [])) = Inr (m', lg) \<and>
         rezero_follows_step lg \<and>
         count_list lg OptimizerStep = length bs \<and>
         count_list lg RezeroWeights = length bs \<and>
         count_list lg PostEpoch = 1 \<and>
         last lg = PostEpoch)"
  proof
    assume a: "snd (train L p epoch bs m) = Inr m'"
    then obtain m1 where m1: "snd ?r = Inr m1"
      by (auto simp: train_def Let_def split_beta split: sum.splits)
    have evs: "?evs = ModelTrain # fst ?r @ [PostEpoch]"
      using m1 by (simp add: train_def Let_def split_beta)
    have rec: "snd (train (recording L) p epoch bs (m, [])) = Inr (m', calls ?evs)"
      using a by (simp add: train_recording)
    have 1: "rezero_follows_step (calls ?evs)" using all by (rule calls_rezero)
    have 2: "count_list (calls ?evs) OptimizerStep = length bs"
            "count_list (calls ?evs) RezeroWeights = length bs"
            "count_list (calls ?evs) PostEpoch = 1"
      using train_loop_counts[OF m1] by (simp_all add: calls_count evs)
    have 3: "last (calls ?evs) = PostEpoch" by (simp add: evs calls_def)
    show "m' = net_postEpoch L (step_all L bs (net_train L m)) \<and>
      (\<exists>lg. snd (train (recording L) p epoch bs (m, [])) = Inr (m', lg) \<and>
         rezero_follows_step lg \<and>
         count_list lg OptimizerStep = length bs \<and>
         count_list lg RezeroWeights = length bs \<and>
         count_list lg PostEpoch = 1 \<and>
         last lg = PostEpoch)"
      using train_state[OF a] rec 1 2 3 by blast
  qed
  show ?thesis using all ret by blast
qed

theorem train_hooks_order_witness:
  "snd (train toy toy_params 0 [toy_batch, toy_batch, toy_batch] toy_fresh) = Inr toy_trained \<and>
   rezero_follows_step (fst (train toy toy_params 0 [toy_batch, toy_batch, toy_batch] toy_fresh)) \<and>
   toy_trained
     = net_postEpoch toy (step_all toy [toy_batch, toy_batch, toy_batch] (net_train toy toy_fresh)) \<and>
   (\<exists>lg. snd (train (recording toy) toy_params 0 [toy_batch, toy_batch, toy_batch] (toy_fresh, []))
            = Inr (toy_trained, lg) \<and>
      rezero_follows_step lg \<and>
      count_list lg OptimizerStep = length [toy_batch, toy_batch, toy_batch] \<and>
      count_list lg RezeroWeights = length [toy_batch, toy_batch, toy_batch] \<and>
      count_list lg PostEpoch = 1 \<and>
      last lg = PostEpoch)"
proof -
  have h: "snd (train toy toy_params 0 [toy_batch, toy_batch, toy_batch] toy_fresh)
             = Inr toy_trained"
    by (simp add: toy_train)
  from train_hooks_order[where L = toy and p = toy_params and epoch = 0
         and bs = "[toy_batch, toy_batch, toy_batch]" and m = toy_fresh and m' = toy_trained] h
  show ?thesis by blast
qed

section \<open>The evaluation routine\<close>

text \<open>\<open>argmax\<close> returns the position of a largest entry of a non-empty row.\<close>

lemma argmax_from_bound: "besti < i \<Longrightarrow> argmax_from best besti i xs < i + length xs"
proof (induction xs arbitrary: best besti i)
  case Nil
  then show ?case by simp
next
  case (Cons x xs)
  have 1: "argmax_from x i (Suc i) xs < Suc i + length xs"
    using Cons.IH[of i "Suc i" x] by simp
  have 2: "argmax_from best besti (Suc i) xs < Suc i + length xs"
    using Cons.IH[of besti "Suc i" best] Cons.prems by simp
  show ?case using 1 2 by simp
qed

lemma argmax_from_max:
  "besti < i \<Longrightarrow> ys ! besti = best \<Longrightarrow> length ys = i \<Longrightarrow> \<forall>y\<in>set ys. y \<le> best \<Longrightarrow>
     \<forall>y\<in>set (ys @ xs). y \<le> (ys @ xs) ! argmax_from best besti i xs"
proof (induction xs arbitrary: best besti i ys)
  case Nil
  then show ?case by (simp add: nth_append)
next
  case (Cons x xs)
  show ?case
  proof (cases "best < x")
    case True
    have "\<forall>y\<in>set ((ys @ [x]) @ xs). y \<le> ((ys @ [x]) @ xs) ! argmax_from x i (Suc i) xs"
      using Cons.prems True by (intro Cons.IH) (auto simp: nth_append)
    then show ?thesis using True by simp
  next
    case False
    have "\<forall>y\<in>set ((ys @ [x]) @ xs).
            y \<le> ((ys @ [x]) @ xs) ! argmax_from best besti (Suc i) xs"
      using Cons.prems False by (intro Cons.IH) (auto simp: nth_append)
    then show ?thesis using False by simp
  qed
qed

lemma argmax_is_max:
  "row \<noteq> [] \<Longrightarrow> argmax row < length row \<and> (\<forall>y\<in>set row. y \<le> row ! argmax row)"
proof (cases row)
  case Nil
  then show "row \<noteq> [] \<Longrightarrow> ?thesis" by simp
next
  case (Cons x xs)
  have a: "argmax_from x 0 1 xs < 1 + length xs" by (rule argmax_from_bound) simp
  have b: "\<forall>y\<in>set ([x] @ xs). y \<le> ([x] @ xs) ! argmax_from x 0 1 xs"
    by (rule argmax_from_max) simp_all
  show ?thesis using a b Cons by (simp add: argmax_def)
qed

text \<open>The loop of \<open>test\<close> adds up the losses and the correct predictions of the scored samples.\<close>

lemma test_loop_spec:
  "test_loop L bs la c m =
     (replicate (length bs) Forward,
      la + loss_total L (scored_samples L bs m),
      c + correct_count (scored_samples L bs m),
      forward_all L bs m)"
  by (induction bs arbitrary: la c m)
     (auto simp: split_beta Let_def nll_loss_sum_def batch_correct_def loss_total_def
        correct_count_def)

lemma test_unfold:
  "test L ld m =
    (ModelEval # replicate (length (batches ld)) Forward,
     if dataset_len ld = 0 then Inl ZeroDivisionError
     else Inr (\<lparr>num_correct = correct_count (scored_samples L (batches ld) (net_eval L m)),
                test_loss = loss_total L (scored_samples L (batches ld) (net_eval L m))
                              / real (dataset_len ld),
                testerror = 100 * real_of_int
                              (correct_count (scored_samples L (batches ld) (net_eval L m)))
                              / real (dataset_len ld)\<rparr>,
              forward_all L (batches ld) (net_eval L m)))"
  by (simp add: test_def test_loop_spec Let_def)

lemma test_events: "fst (test L ld m) = ModelEval # replicate (length (batches ld)) Forward"
  by (simp add: test_unfold)

lemma test_returns: "dataset_len ld \<noteq> 0 \<Longrightarrow> \<exists>r m'. snd (test L ld m) = Inr (r, m')"
  by (simp add: test_unfold)

lemma test_empty_dataset: "dataset_len ld = 0 \<Longrightarrow> snd (test L ld m) = Inl ZeroDivisionError"
  by (simp add: test_unfold)

text \<open>
  If the forward pass of a network in evaluation mode leaves the network as it is, \<open>test\<close>
  leaves the network in the state \<open>net_eval\<close> gave it.
\<close>

lemma forward_all_eval:
  "\<forall>m x. snd (net_forward L (net_eval L m) x) = net_eval L m \<Longrightarrow>
     forward_all L bs (net_eval L m) = net_eval L m"
  by (induction bs) auto

lemma test_leaves_eval:
  "\<forall>m x. snd (net_forward L (net_eval L m) x) = net_eval L m \<Longrightarrow>
   test L ld m = (evs, Inr (r, m')) \<Longrightarrow> m' = net_eval L m"
  by (auto simp: test_unfold forward_all_eval split: if_splits)

lemma toy_test:
  "test toy (toy_mk n) m = ([ModelEval, Forward], Inr (toy_r, m\<lparr>training := False\<rparr>))"
  by (simp add: test_def toy_defs nll_loss_sum_def batch_correct_def argmax_def toy_r_def)

text \<open>
  In the program \<open>test_loss\<close> and \<open>testerror\<close> are floating-point numbers: the batch sums
  are rounded by the library and the running sum and both divisions are rounded by Python.
  \<open>test_unfold\<close> gives their values in exact arithmetic only; \<open>num_correct\<close> is an integer
  and is exact.
\<close>

text \<open>
  The operations \<open>test\<close> applies to the network, as they record themselves, are the calls
  it returns: \<^verbatim>\<open>model.eval()\<close>, then one forward pass per batch.
\<close>

lemma nll_loss_sum_recording: "nll_loss_sum (recording L) = nll_loss_sum L"
  by (simp add: nll_loss_sum_def recording_ops fun_eq_iff)

lemma test_loop_recording:
  "test_loop (recording L) bs la c (m, lg) =
     (fst (test_loop L bs la c m),
      fst (snd (test_loop L bs la c m)),
      fst (snd (snd (test_loop L bs la c m))),
      (snd (snd (snd (test_loop L bs la c m))), lg @ fst (test_loop L bs la c m)))"
proof (induction bs arbitrary: la c m lg)
  case Nil
  then show ?case by simp
next
  case (Cons b bs)
  obtain data target where b: "b = (data, target)" by (cases b)
  show ?case
    by (simp add: b Let_def split_beta Cons.IH recording_ops nll_loss_sum_recording)
qed

lemma test_recording:
  "test (recording L) ld (m, lg) =
     (fst (test L ld m),
      case snd (test L ld m) of
        Inl e \<Rightarrow> Inl e
      | Inr (r, m') \<Rightarrow> Inr (r, (m', lg @ fst (test L ld m))))"
  by (simp add: test_def Let_def split_beta recording_ops test_loop_recording)

text \<open>The model of the spec: its forward pass in inference mode changes nothing.\<close>

lemma spec_model_forward_eval:
  "\<forall>m x. snd (net_forward (spec_model infer T) (net_eval (spec_model infer T) m) x)
           = net_eval (spec_model infer T) m"
  by (simp add: spec_model_def)


lemma spec_model_eval: "net_eval (spec_model infer T) m = m\<lparr>in_training := False\<rparr>"
  by (simp add: spec_model_def)

lemma test_spec_model_state:
  assumes "snd (test (spec_model infer T) ld m) = Inr (r, m')"
  shows "m' = m\<lparr>in_training := False\<rparr>"
proof -
  have "test (spec_model infer T) ld m = (fst (test (spec_model infer T) ld m), Inr (r, m'))"
    using assms by (cases "test (spec_model infer T) ld m") simp
  from test_leaves_eval[OF spec_model_forward_eval this] show ?thesis
    by (simp add: spec_model_eval)
qed

lemma toy_model_test:
  "test (spec_model toy_infer toy) (toy_mk n) m
     = ([ModelEval, Forward], Inr (toy_r, m\<lparr>in_training := False\<rparr>))"
  by (simp add: test_def spec_model_def toy_infer_def toy_defs nll_loss_sum_def batch_correct_def
        argmax_def toy_r_def)

text \<open>
  Claim C8, for the model as the spec describes it. Whenever a call of \<open>test\<close> returns, a
  second call with the same loader (the same batches in the same order), started from the
  model the first call left, returns the same result, in particular the same \<open>num_correct\<close>
  and the same \<open>test_loss\<close>, and leaves the same model. The mode the model was in before the
  first call does not matter. The only operations either call applies to the model are
  \<^verbatim>\<open>model.eval()\<close> and one forward pass per batch.
\<close>

theorem test_repeatable:
  assumes "snd (test (spec_model infer T) ld m) = Inr (r1, m1)"
  shows "snd (test (spec_model infer T) ld m1) = Inr (r1, m1) \<and>
         (\<exists>r2 m2. snd (test (spec_model infer T) ld m1) = Inr (r2, m2) \<and>
            num_correct r2 = num_correct r1 \<and> test_loss r2 = test_loss r1) \<and>
         snd (test (spec_model infer T) ld (m\<lparr>in_training := b\<rparr>)) = Inr (r1, m1) \<and>
         m1 = m\<lparr>in_training := False\<rparr> \<and>
         snd (test (recording (spec_model infer T)) ld (m, []))
           = Inr (r1, (m1, ModelEval # replicate (length (batches ld)) Forward))"
proof -
  let ?S = "spec_model infer T"
  have m1: "m1 = m\<lparr>in_training := False\<rparr>" by (rule test_spec_model_state[OF assms])
  have "net_eval ?S m1 = net_eval ?S m" by (simp add: m1 spec_model_eval)
  then have "test ?S ld m1 = test ?S ld m" by (simp add: test_unfold)
  then have 1: "snd (test ?S ld m1) = Inr (r1, m1)" using assms by simp
  have "net_eval ?S (m\<lparr>in_training := b\<rparr>) = net_eval ?S m" by (simp add: spec_model_eval)
  then have "test ?S ld (m\<lparr>in_training := b\<rparr>) = test ?S ld m" by (simp add: test_unfold)
  then have 2: "snd (test ?S ld (m\<lparr>in_training := b\<rparr>)) = Inr (r1, m1)" using assms by simp
  have 3: "snd (test (recording ?S) ld (m, []))
             = Inr (r1, (m1, ModelEval # replicate (length (batches ld)) Forward))"
    using assms by (simp add: test_recording test_events)
  show ?thesis using 1 2 3 m1 by simp
qed

theorem test_repeatable_witness:
  "snd (test (spec_model toy_infer toy) (toy_mk 0) toy_model)
     = Inr (toy_r, toy_model\<lparr>in_training := False\<rparr>) \<and>
   snd (test (spec_model toy_infer toy) (toy_mk 0) (toy_model\<lparr>in_training := False\<rparr>))
     = Inr (toy_r, toy_model\<lparr>in_training := False\<rparr>) \<and>
   (\<exists>r2 m2. snd (test (spec_model toy_infer toy) (toy_mk 0) (toy_model\<lparr>in_training := False\<rparr>))
               = Inr (r2, m2) \<and>
      num_correct r2 = num_correct toy_r \<and> test_loss r2 = test_loss toy_r) \<and>
   snd (test (recording (spec_model toy_infer toy)) (toy_mk 0) (toy_model, []))
     = Inr (toy_r, (toy_model\<lparr>in_training := False\<rparr>,
                   ModelEval # replicate (length (batches (toy_mk 0))) Forward))"
proof -
  have h: "snd (test (spec_model toy_infer toy) (toy_mk 0) toy_model)
             = Inr (toy_r, toy_model\<lparr>in_training := False\<rparr>)"
    by (simp add: toy_model_test)
  from h test_repeatable[OF h] show ?thesis by blast
qed

section \<open>The noise sweep\<close>

lemma noise_levels_distinct: "distinct noise_levels"
  by (simp add: noise_levels_def)

lemma noise_levels_length: "length noise_levels = 11"
  by (simp add: noise_levels_def)

text \<open>
  What the loop of the sweep leaves when it returns: every evaluation recorded under its noise
  level, the other keys as they were, the sum of the \<open>num_correct\<close>, one evaluation per level.
\<close>

lemma noise_loop_spec:
  "noise_loop L mk ns ret tot m = (evs, Inr (ret', tot', m')) \<Longrightarrow> distinct ns \<Longrightarrow>
     map fst (sweep_results L mk ns m) = ns \<and>
     (\<forall>(n, r) \<in> set (sweep_results L mk ns m). ret' (KNoise n) = Some (VResult r)) \<and>
     (\<forall>k. k \<notin> KNoise ` set ns \<longrightarrow> ret' k = ret k) \<and>
     tot' = tot + (\<Sum>(n, r) \<leftarrow> sweep_results L mk ns m. num_correct r) \<and>
     count_list evs ModelEval = length ns"
proof (induction ns arbitrary: ret tot m evs)
  case Nil
  then show ?case by simp
next
  case (Cons noise ns)
  obtain evs1 out1 where t: "test L (mk noise) m = (evs1, out1)" by (cases "test L (mk noise) m")
  from Cons.prems(1) t obtain r m1 where out1: "out1 = Inr (r, m1)"
    by (cases out1) auto
  obtain rest out where nl: "noise_loop L mk ns (ret(KNoise noise \<mapsto> VResult r))
                             (tot + num_correct r) m1 = (rest, out)"
    by (cases "noise_loop L mk ns (ret(KNoise noise \<mapsto> VResult r)) (tot + num_correct r) m1")
  from Cons.prems(1) t out1 nl have evs: "evs = evs1 @ rest" and out: "out = Inr (ret', tot', m')"
    by auto
  have d: "distinct ns" and nin: "noise \<notin> set ns" using Cons.prems(2) by auto
  note ih = Cons.IH[OF nl[unfolded out] d]
  have e1: "count_list evs1 ModelEval = 1"
    using test_events[of L "mk noise" m] t by simp
  have keep: "ret' (KNoise noise) = Some (VResult r)"
  proof -
    have "KNoise noise \<notin> KNoise ` set ns" using nin by auto
    then have "ret' (KNoise noise) = (ret(KNoise noise \<mapsto> VResult r)) (KNoise noise)"
      using ih by blast
    then show ?thesis by simp
  qed
  have sw: "sweep_results L mk (noise # ns) m = (noise, r) # sweep_results L mk ns m1"
    using t out1 by simp
  show ?case
  proof (intro conjI)
    show "map fst (sweep_results L mk (noise # ns) m) = noise # ns" using sw ih by simp
    show "\<forall>(n, r) \<in> set (sweep_results L mk (noise # ns) m). ret' (KNoise n) = Some (VResult r)"
      using sw ih keep by auto
    show "\<forall>k. k \<notin> KNoise ` set (noise # ns) \<longrightarrow> ret' k = ret k"
      using ih by auto
    show "tot' = tot + (\<Sum>(n, r) \<leftarrow> sweep_results L mk (noise # ns) m. num_correct r)"
      using sw ih by simp
    show "count_list evs ModelEval = length (noise # ns)"
      using evs e1 ih by simp
  qed
qed



lemma noise_loop_returns:
  "\<forall>n\<in>set ns. dataset_len (mk n) \<noteq> 0 \<Longrightarrow>
     \<exists>ret' tot' m'. snd (noise_loop L mk ns ret tot m) = Inr (ret', tot', m')"
proof (induction ns arbitrary: ret tot m)
  case Nil
  then show ?case by simp
next
  case (Cons noise ns)
  from Cons.prems have "dataset_len (mk noise) \<noteq> 0" by simp
  from test_returns[OF this, of L m] obtain r m1 where t: "snd (test L (mk noise) m) = Inr (r, m1)"
    by blast
  have "\<exists>ret' tot' m'.
          snd (noise_loop L mk ns (ret(KNoise noise \<mapsto> VResult r)) (tot + num_correct r) m1)
            = Inr (ret', tot', m')"
    using Cons.prems by (intro Cons.IH) simp
  then show ?case using t by (cases "test L (mk noise) m") (auto simp: split_beta)
qed

text \<open>How \<open>runNoiseTests\<close> builds its result from what the loop leaves.\<close>

lemma runNoiseTests_Inr:
  "snd (runNoiseTests L mk m) = Inr (ret, m') \<Longrightarrow>
     \<exists>ret0 tot r0.
       noise_loop L mk noise_levels Map.empty 0 m
         = (fst (runNoiseTests L mk m), Inr (ret0, tot, m')) \<and>
       ret0 (KNoise 0) = Some (VResult r0) \<and>
       ret = ret0(KStr ''totalCorrect'' \<mapsto> VInt tot,
                  KStr ''testerror'' \<mapsto> VFloat (testerror r0))"
  by (auto simp: runNoiseTests_def Let_def split: prod.splits sum.splits option.splits val.splits)

text \<open>The sweep returns when no test set is empty.\<close>

lemma runNoiseTests_returns:
  assumes "\<forall>n\<in>set noise_levels. dataset_len (mk n) \<noteq> 0"
  shows "\<exists>ret m'. snd (runNoiseTests L mk m) = Inr (ret, m')"
proof -
  from noise_loop_returns[OF assms, of L Map.empty 0 m] obtain ret0 tot m' where
    nl: "snd (noise_loop L mk noise_levels Map.empty 0 m) = Inr (ret0, tot, m')" by blast
  then obtain evs where
    nl': "noise_loop L mk noise_levels Map.empty 0 m = (evs, Inr (ret0, tot, m'))"
    by (cases "noise_loop L mk noise_levels Map.empty 0 m") auto
  note sp = noise_loop_spec[OF nl' noise_levels_distinct]
  have "0 \<in> set (map fst (sweep_results L mk noise_levels m))"
    using sp by (simp add: noise_levels_def)
  then obtain r where "(0, r) \<in> set (sweep_results L mk noise_levels m)" by auto
  then have "ret0 (KNoise 0) = Some (VResult r)" using sp by blast
  then show ?thesis using nl' by (simp add: runNoiseTests_def)
qed

text \<open>The entry of noise level 0.0 is the result of the first evaluation.\<close>

lemma sweep_first:
  assumes "snd (runNoiseTests L mk m) = Inr (ret, m')"
  shows "\<exists>evs0 r m0. test L (mk 0) m = (evs0, Inr (r, m0)) \<and>
           ret (KNoise 0) = Some (VResult r) \<and>
           ret (KStr ''testerror'') = Some (VFloat (testerror r))"
proof -
  from runNoiseTests_Inr[OF assms] obtain ret0 tot r0 where
    nl: "noise_loop L mk noise_levels Map.empty 0 m
           = (fst (runNoiseTests L mk m), Inr (ret0, tot, m'))" and
    r0: "ret0 (KNoise 0) = Some (VResult r0)" and
    ret: "ret = ret0(KStr ''totalCorrect'' \<mapsto> VInt tot,
                     KStr ''testerror'' \<mapsto> VFloat (testerror r0))"
    by (elim exE conjE)
  note sp = noise_loop_spec[OF nl noise_levels_distinct]
  obtain ns where nls: "noise_levels = 0 # ns" by (simp add: noise_levels_def)
  obtain evs0 out0 where t: "test L (mk 0) m = (evs0, out0)" by (cases "test L (mk 0) m")
  from nl[unfolded nls] t obtain r m0 where out0: "out0 = Inr (r, m0)"
    by (cases out0) auto
  have "sweep_results L mk (0 # ns) m = (0, r) # sweep_results L mk ns m0"
    using t out0 by simp
  then have "(0, r) \<in> set (sweep_results L mk noise_levels m)" unfolding nls by simp
  then have "ret0 (KNoise 0) = Some (VResult r)" using sp by blast
  then have "r0 = r" using r0 by simp
  then show ?thesis using t out0 r0 ret by auto
qed

text \<open>The keys of the mapping the sweep returns.\<close>

lemma sweep_dom:
  assumes "snd (runNoiseTests L mk m) = Inr (ret, m')"
  shows "dom ret = KNoise ` set noise_levels \<union> {KStr ''totalCorrect'', KStr ''testerror''}"
proof -
  from runNoiseTests_Inr[OF assms] obtain ret0 tot r0 where
    nl: "noise_loop L mk noise_levels Map.empty 0 m
           = (fst (runNoiseTests L mk m), Inr (ret0, tot, m'))" and
    r0: "ret0 (KNoise 0) = Some (VResult r0)" and
    ret: "ret = ret0(KStr ''totalCorrect'' \<mapsto> VInt tot,
                     KStr ''testerror'' \<mapsto> VFloat (testerror r0))"
    by (elim exE conjE)
  note sp = noise_loop_spec[OF nl noise_levels_distinct]
  have in_dom: "\<And>n. n \<in> set noise_levels \<Longrightarrow> KNoise n \<in> dom ret0"
  proof -
    fix n assume "n \<in> set noise_levels"
    then have "n \<in> set (map fst (sweep_results L mk noise_levels m))" using sp by simp
    then obtain r where "(n, r) \<in> set (sweep_results L mk noise_levels m)" by auto
    then have "ret0 (KNoise n) = Some (VResult r)" using sp by blast
    then show "KNoise n \<in> dom ret0" by auto
  qed
  have out_dom: "\<And>k. k \<notin> KNoise ` set noise_levels \<Longrightarrow> k \<notin> dom ret0"
    using sp by auto
  have "dom ret0 = KNoise ` set noise_levels" using in_dom out_dom by blast
  then show ?thesis using ret by auto
qed

lemma toy_sweep:
  "snd (runNoiseTests toy toy_mk m) = Inr (toy_ret, m\<lparr>training := False\<rparr>)"
  by (simp add: runNoiseTests_def noise_levels_def toy_test toy_ret_def) (simp add: toy_r_def)

lemma toy_sweep_trained:
  "snd (runNoiseTests toy toy_mk toy_trained) = Inr (toy_ret, toy_evaluated)"
  by (simp add: toy_sweep) (simp add: toy_trained_def toy_evaluated_def)

text \<open>
  Claim C2. Whenever the sweep returns, it has evaluated exactly the noise levels 0.0, 0.05,
  ..., 0.5 in this order, once each (eleven calls of \<^verbatim>\<open>model.eval\<close>, one per evaluation);
  the result of each evaluation is recorded under its noise level; and \<open>totalCorrect\<close> is the
  sum of the \<open>num_correct\<close> of these eleven results.
\<close>

theorem sweep_totalCorrect:
  assumes "snd (runNoiseTests L mk m) = Inr (ret, m')"
  shows "map fst (sweep_results L mk noise_levels m)
           = [0.0, 0.05, 0.1, 0.15, 0.2, 0.25, 0.3, 0.35, 0.4, 0.45, 0.5] \<and>
         (\<forall>(n, r) \<in> set (sweep_results L mk noise_levels m). ret (KNoise n) = Some (VResult r)) \<and>
         ret (KStr ''totalCorrect'')
           = Some (VInt (\<Sum>(n, r) \<leftarrow> sweep_results L mk noise_levels m. num_correct r)) \<and>
         length (sweep_results L mk noise_levels m) = 11 \<and>
         count_list (fst (runNoiseTests L mk m)) ModelEval = 11"
proof -
  from runNoiseTests_Inr[OF assms] obtain ret0 tot r0 where
    nl: "noise_loop L mk noise_levels Map.empty 0 m
           = (fst (runNoiseTests L mk m), Inr (ret0, tot, m'))" and
    r0: "ret0 (KNoise 0) = Some (VResult r0)" and
    ret: "ret = ret0(KStr ''totalCorrect'' \<mapsto> VInt tot,
                     KStr ''testerror'' \<mapsto> VFloat (testerror r0))"
    by (elim exE conjE)
  note sp = noise_loop_spec[OF nl noise_levels_distinct]
  have 1: "map fst (sweep_results L mk noise_levels m) = noise_levels" using sp by simp
  have 2: "\<forall>(n, r) \<in> set (sweep_results L mk noise_levels m). ret (KNoise n) = Some (VResult r)"
    using sp ret by auto
  have 3: "tot = (\<Sum>(n, r) \<leftarrow> sweep_results L mk noise_levels m. num_correct r)"
    using sp by simp
  have 4: "count_list (fst (runNoiseTests L mk m)) ModelEval = 11"
    using sp noise_levels_length by simp
  have "length (map fst (sweep_results L mk noise_levels m)) = 11"
    unfolding 1 by (rule noise_levels_length)
  then have 5: "length (sweep_results L mk noise_levels m) = 11" by simp
  show ?thesis using 1 2 3 4 5 ret by (simp add: noise_levels_def)
qed

theorem sweep_totalCorrect_witness:
  "snd (runNoiseTests toy toy_mk toy_trained) = Inr (toy_ret, toy_evaluated) \<and>
   map fst (sweep_results toy toy_mk noise_levels toy_trained)
     = [0.0, 0.05, 0.1, 0.15, 0.2, 0.25, 0.3, 0.35, 0.4, 0.45, 0.5] \<and>
   toy_ret (KStr ''totalCorrect'')
     = Some (VInt (\<Sum>(n, r) \<leftarrow> sweep_results toy toy_mk noise_levels toy_trained. num_correct r)) \<and>
   length (sweep_results toy toy_mk noise_levels toy_trained) = 11 \<and>
   count_list (fst (runNoiseTests toy toy_mk toy_trained)) ModelEval = 11 \<and>
   toy_ret (KStr ''totalCorrect'') = Some (VInt 11)"
proof -
  have h: "snd (runNoiseTests toy toy_mk toy_trained) = Inr (toy_ret, toy_evaluated)"
    by (rule toy_sweep_trained)
  have v: "toy_ret (KStr ''totalCorrect'') = Some (VInt 11)" by (simp add: toy_ret_def)
  from h sweep_totalCorrect[OF h] v show ?thesis by blast
qed

text \<open>What \<open>iterate\<close> returns on the last iteration and on the others.\<close>

lemma iterate_last:
  "snd (iterate L p bs mk now (iterations p - 1) s) = Inr (ret, s') \<Longrightarrow>
     \<exists>m1 nret m2.
       snd (train L p (iterations p - 1) bs (model s)) = Inr m1 \<and>
       snd (runNoiseTests L mk m1) = Inr (nret, m2) \<and>
       ret = nret(KStr ''elapsedTime'' \<mapsto> VFloat (now - startTime s)) \<and>
       s' = s\<lparr>model := m2\<rparr>"
  by (auto simp: iterate_def Let_def split_beta split: sum.splits if_splits)

lemma iterate_not_last:
  "iteration \<noteq> iterations p - 1 \<Longrightarrow>
   snd (iterate L p bs mk now iteration s) = Inr (ret, s') \<Longrightarrow>
     \<exists>m1. snd (train L p iteration bs (model s)) = Inr m1 \<and>
       ret = [KStr ''elapsedTime'' \<mapsto> VFloat (now - startTime s)] \<and>
       s' = s\<lparr>model := m1\<rparr>"
  by (auto simp: iterate_def Let_def split_beta split: sum.splits if_splits)

text \<open>
  \<open>iterate\<close> returns when the log interval is not 0 and, on the last iteration, no test set
  is empty.
\<close>

lemma iterate_returns:
  assumes "log_interval p \<noteq> 0"
      and "iteration = iterations p - 1 \<longrightarrow> (\<forall>n\<in>set noise_levels. dataset_len (mk n) \<noteq> 0)"
  shows "\<exists>ret s'. snd (iterate L p bs mk now iteration s) = Inr (ret, s')"
proof -
  from train_loop_returns[OF assms(1), of L iteration 0 bs "net_train L (model s)"]
  obtain m1 where tr: "snd (train L p iteration bs (model s)) = Inr m1"
    by (auto simp: train_def Let_def split_beta)
  show ?thesis
  proof (cases "iteration = iterations p - 1")
    case True
    with assms(2) have "\<forall>n\<in>set noise_levels. dataset_len (mk n) \<noteq> 0" by simp
    from runNoiseTests_returns[OF this, of L m1] obtain nret m2 where
      rn: "snd (runNoiseTests L mk m1) = Inr (nret, m2)" by blast
    have "dom nret = KNoise ` set noise_levels \<union> {KStr ''totalCorrect'', KStr ''testerror''}"
      by (rule sweep_dom[OF rn])
    then have "nret (KStr ''totalCorrect'') \<noteq> None" "nret (KStr ''testerror'') \<noteq> None"
      by auto
    then show ?thesis using True tr rn by (auto simp: iterate_def split_beta)
  next
    case False
    then show ?thesis using tr by (simp add: iterate_def split_beta)
  qed
qed

lemma toy_iterate_last:
  "snd (iterate toy toy_params [toy_batch, toy_batch, toy_batch] toy_mk 10
          (iterations toy_params - 1) toy_state)
     = Inr (toy_iter_ret, toy_state\<lparr>model := toy_evaluated\<rparr>)"
proof -
  have i: "iterations toy_params = 1" by (simp add: toy_params_def)
  have r: "toy_ret (KStr ''totalCorrect'') \<noteq> None" "toy_ret (KStr ''testerror'') \<noteq> None"
    by (simp_all add: toy_ret_def)
  show ?thesis using r
    by (simp add: iterate_def split_beta i toy_train toy_sweep_trained toy_iter_ret_def
          toy_state_def)
qed

lemma toy_iterate_first:
  "snd (iterate toy toy_params2 [toy_batch, toy_batch, toy_batch] toy_mk 10 0 toy_state)
     = Inr ([KStr ''elapsedTime'' \<mapsto> VFloat 7], toy_state\<lparr>model := toy_trained\<rparr>)"
  by (simp add: iterate_def split_beta toy_train toy_train2 toy_state_def)
     (simp add: toy_params2_def)

text \<open>
  Claim C3. Whenever the sweep returns, the \<open>testerror\<close> of its result is the \<open>testerror\<close> of
  the result recorded for noise level 0.0, which is the result of the first evaluation.
  Consequently, whenever the last iteration returns, the \<open>testerror\<close> of its result is the
  \<open>testerror\<close> of the evaluation at noise level 0.0 made after that epoch's training.
\<close>

theorem sweep_testerror:
  "(snd (runNoiseTests L mk m) = Inr (ret, m') \<longrightarrow>
      (\<exists>evs0 r m0. test L (mk 0) m = (evs0, Inr (r, m0)) \<and>
         ret (KNoise 0) = Some (VResult r) \<and>
         ret (KStr ''testerror'') = Some (VFloat (testerror r)))) \<and>
   (snd (iterate L p bs mk now (iterations p - 1) s) = Inr (iret, s') \<longrightarrow>
      (\<exists>m1 evs0 r m0.
         snd (train L p (iterations p - 1) bs (model s)) = Inr m1 \<and>
         test L (mk 0) m1 = (evs0, Inr (r, m0)) \<and>
         iret (KNoise 0) = Some (VResult r) \<and>
         iret (KStr ''testerror'') = Some (VFloat (testerror r))))"
proof (intro conjI impI)
  assume "snd (runNoiseTests L mk m) = Inr (ret, m')"
  then show "\<exists>evs0 r m0. test L (mk 0) m = (evs0, Inr (r, m0)) \<and>
         ret (KNoise 0) = Some (VResult r) \<and>
         ret (KStr ''testerror'') = Some (VFloat (testerror r))"
    by (rule sweep_first)
next
  assume a: "snd (iterate L p bs mk now (iterations p - 1) s) = Inr (iret, s')"
  from iterate_last[OF a] obtain m1 nret m2 where
    tr: "snd (train L p (iterations p - 1) bs (model s)) = Inr m1" and
    rn: "snd (runNoiseTests L mk m1) = Inr (nret, m2)" and
    iret: "iret = nret(KStr ''elapsedTime'' \<mapsto> VFloat (now - startTime s))"
    by (elim exE conjE)
  from sweep_first[OF rn] obtain evs0 r m0 where
    "test L (mk 0) m1 = (evs0, Inr (r, m0))" "nret (KNoise 0) = Some (VResult r)"
    "nret (KStr ''testerror'') = Some (VFloat (testerror r))"
    by (elim exE conjE)
  then show "\<exists>m1 evs0 r m0.
         snd (train L p (iterations p - 1) bs (model s)) = Inr m1 \<and>
         test L (mk 0) m1 = (evs0, Inr (r, m0)) \<and>
         iret (KNoise 0) = Some (VResult r) \<and>
         iret (KStr ''testerror'') = Some (VFloat (testerror r))"
    using tr iret by auto
qed

theorem sweep_testerror_witness:
  "snd (runNoiseTests toy toy_mk toy_trained) = Inr (toy_ret, toy_evaluated) \<and>
   (\<exists>evs0 r m0. test toy (toy_mk 0) toy_trained = (evs0, Inr (r, m0)) \<and>
      toy_ret (KNoise 0) = Some (VResult r) \<and>
      toy_ret (KStr ''testerror'') = Some (VFloat (testerror r))) \<and>
   snd (iterate toy toy_params [toy_batch, toy_batch, toy_batch] toy_mk 10
          (iterations toy_params - 1) toy_state)
     = Inr (toy_iter_ret, toy_state\<lparr>model := toy_evaluated\<rparr>) \<and>
   (\<exists>m1 evs0 r m0.
      snd (train toy toy_params (iterations toy_params - 1) [toy_batch, toy_batch, toy_batch]
             (model toy_state)) = Inr m1 \<and>
      test toy (toy_mk 0) m1 = (evs0, Inr (r, m0)) \<and>
      toy_iter_ret (KNoise 0) = Some (VResult r) \<and>
      toy_iter_ret (KStr ''testerror'') = Some (VFloat (testerror r)))"
proof -
  have h1: "snd (runNoiseTests toy toy_mk toy_trained) = Inr (toy_ret, toy_evaluated)"
    by (rule toy_sweep_trained)
  have h2: "snd (iterate toy toy_params [toy_batch, toy_batch, toy_batch] toy_mk 10
                   (iterations toy_params - 1) toy_state)
              = Inr (toy_iter_ret, toy_state\<lparr>model := toy_evaluated\<rparr>)"
    by (rule toy_iterate_last)
  note t = sweep_testerror[where L = toy and mk = toy_mk and m = toy_trained and ret = toy_ret
      and m' = toy_evaluated and p = toy_params and bs = "[toy_batch, toy_batch, toy_batch]"
      and now = 10 and s = toy_state and iret = toy_iter_ret
      and s' = "toy_state\<lparr>model := toy_evaluated\<rparr>"]
  from h1 h2 t show ?thesis by blast
qed







section \<open>One iteration\<close>

text \<open>
  Claim C4. Whenever \<open>iterate\<close> returns, its result has the key \<open>elapsedTime\<close>, with the time
  since \<open>startTime\<close>. On the last configured iteration (index \<open>iterations - 1\<close>) it also has
  \<open>totalCorrect\<close>, \<open>testerror\<close> and an entry for every noise level; on every other iteration
  it has none of these keys.
\<close>

theorem iterate_keys:
  assumes "snd (iterate L p bs mk now iteration s) = Inr (ret, s')"
  shows "ret (KStr ''elapsedTime'') = Some (VFloat (now - startTime s)) \<and>
     ((KStr ''totalCorrect'' \<in> dom ret \<and> KStr ''testerror'' \<in> dom ret \<and>
        (\<forall>n \<in> set noise_levels. KNoise n \<in> dom ret)) = (iteration = iterations p - 1)) \<and>
     ((KStr ''totalCorrect'' \<in> dom ret \<or> KStr ''testerror'' \<in> dom ret \<or>
        (\<exists>n. KNoise n \<in> dom ret)) = (iteration = iterations p - 1))"
proof (cases "iteration = iterations p - 1")
  case True
  from iterate_last[OF assms[unfolded True]] obtain m1 nret m2 where
    rn: "snd (runNoiseTests L mk m1) = Inr (nret, m2)" and
    ret: "ret = nret(KStr ''elapsedTime'' \<mapsto> VFloat (now - startTime s))"
    by (elim exE conjE)
  have d: "dom ret = insert (KStr ''elapsedTime'')
             (KNoise ` set noise_levels \<union> {KStr ''totalCorrect'', KStr ''testerror''})"
    using sweep_dom[OF rn] ret by simp
  have ne: "0 \<in> set noise_levels" by (simp add: noise_levels_def)
  show ?thesis using True d ret ne by auto
next
  case False
  from iterate_not_last[OF False assms]
  have "ret = [KStr ''elapsedTime'' \<mapsto> VFloat (now - startTime s)]"
    by blast
  then show ?thesis using False by auto
qed

theorem iterate_keys_witness:
  "snd (iterate toy toy_params [toy_batch, toy_batch, toy_batch] toy_mk 10
          (iterations toy_params - 1) toy_state)
     = Inr (toy_iter_ret, toy_state\<lparr>model := toy_evaluated\<rparr>) \<and>
   toy_iter_ret (KStr ''elapsedTime'') = Some (VFloat (10 - startTime toy_state)) \<and>
   ((KStr ''totalCorrect'' \<in> dom toy_iter_ret \<and> KStr ''testerror'' \<in> dom toy_iter_ret \<and>
      (\<forall>n \<in> set noise_levels. KNoise n \<in> dom toy_iter_ret))
    = (iterations toy_params - 1 = iterations toy_params - 1)) \<and>
   snd (iterate toy toy_params2 [toy_batch, toy_batch, toy_batch] toy_mk 10 0 toy_state)
     = Inr ([KStr ''elapsedTime'' \<mapsto> VFloat 7], toy_state\<lparr>model := toy_trained\<rparr>) \<and>
   ((KStr ''totalCorrect'' \<in> dom [KStr ''elapsedTime'' \<mapsto> VFloat 7] \<or>
     KStr ''testerror'' \<in> dom [KStr ''elapsedTime'' \<mapsto> VFloat 7] \<or>
     (\<exists>n. KNoise n \<in> dom [KStr ''elapsedTime'' \<mapsto> VFloat 7]))
    = (0 = iterations toy_params2 - 1))"
proof -
  have h1: "snd (iterate toy toy_params [toy_batch, toy_batch, toy_batch] toy_mk 10
                   (iterations toy_params - 1) toy_state)
              = Inr (toy_iter_ret, toy_state\<lparr>model := toy_evaluated\<rparr>)"
    by (rule toy_iterate_last)
  have h2: "snd (iterate toy toy_params2 [toy_batch, toy_batch, toy_batch] toy_mk 10 0 toy_state)
              = Inr ([KStr ''elapsedTime'' \<mapsto> VFloat 7], toy_state\<lparr>model := toy_trained\<rparr>)"
    by (rule toy_iterate_first)
  from h1 iterate_keys[OF h1] h2 iterate_keys[OF h2] show ?thesis by blast
qed

text \<open>
  Claim C9. Whenever \<open>iterate\<close> returns on an iteration that is not the last configured one,
  its result is the mapping with the single key \<open>elapsedTime\<close>.
\<close>

theorem iterate_not_last_keys:
  assumes "iteration \<noteq> iterations p - 1"
      and "snd (iterate L p bs mk now iteration s) = Inr (ret, s')"
  shows "ret = [KStr ''elapsedTime'' \<mapsto> VFloat (now - startTime s)] \<and>
         dom ret = {KStr ''elapsedTime''}"
  using iterate_not_last[OF assms] by (auto split: if_splits)

theorem iterate_not_last_keys_witness:
  "0 \<noteq> iterations toy_params2 - 1 \<and>
   snd (iterate toy toy_params2 [toy_batch, toy_batch, toy_batch] toy_mk 10 0 toy_state)
     = Inr ([KStr ''elapsedTime'' \<mapsto> VFloat 7], toy_state\<lparr>model := toy_trained\<rparr>) \<and>
   [KStr ''elapsedTime'' \<mapsto> VFloat 7] = [KStr ''elapsedTime'' \<mapsto> VFloat (10 - startTime toy_state)] \<and>
   dom [KStr ''elapsedTime'' \<mapsto> VFloat 7] = {KStr ''elapsedTime''}"
proof -
  have h1: "0 \<noteq> iterations toy_params2 - 1" by (simp add: toy_params2_def)
  have h2: "snd (iterate toy toy_params2 [toy_batch, toy_batch, toy_batch] toy_mk 10 0 toy_state)
              = Inr ([KStr ''elapsedTime'' \<mapsto> VFloat 7], toy_state\<lparr>model := toy_trained\<rparr>)"
    by (rule toy_iterate_first)
  from h1 h2 iterate_not_last_keys[OF h1 h2] show ?thesis by blast
qed

end
